theory Spec2Isabelle
  imports Complex_Main
begin

section \<open>Reliable intelligent clipper: segment planning and scoring\<close>

text \<open>
  A shallow embedding of \<^verbatim>\<open>backend/app/reliable_clipper.py\<close> (class
  \<^verbatim>\<open>ReliableIntelligentClipper\<close>). Python floats are read as \<^typ>\<open>real\<close>
  numbers (no rounding, no infinities, no NaN), Python ints as \<^typ>\<open>int\<close>, tuples
  \<^verbatim>\<open>(start, end)\<close> as pairs, exceptions as values of a sum type.
\<close>

subsection \<open>The random source\<close>

text \<open>
  The module draws from Python's global \<^verbatim>\<open>random\<close> generator. The generator is an
  explicit stream of raw draws that every call consumes from the front and hands on:
  \<^verbatim>\<open>random()\<close> is the fractional part of the next raw draw, a number in \<open>[0, 1)\<close>;
  \<^verbatim>\<open>uniform(a, b)\<close> is \<^verbatim>\<open>a + (b - a) * random()\<close>;
  \<^verbatim>\<open>randint(a, b)\<close> is \<^verbatim>\<open>a + _randbelow(b - a + 1)\<close>;
  \<^verbatim>\<open>choice(seq)\<close> is \<^verbatim>\<open>seq[_randbelow(len(seq))]\<close> and raises IndexError on an
  empty sequence. Every value of the range is reached by some raw draw, and no other is.
\<close>

type_synonym rng = "nat \<Rightarrow> real"

datatype error =
    ZeroDivisionError | TypeError | IndexError | KeyError | AttributeError
  | JSONDecodeError | RequestException | ApiError int

definition random_unit :: "rng \<Rightarrow> real \<times> rng" where
  "random_unit g = (frac (g 0), \<lambda>n. g (Suc n))"

definition uniform :: "real \<Rightarrow> real \<Rightarrow> rng \<Rightarrow> real \<times> rng" where
  "uniform a b g = (case random_unit g of (u, g') \<Rightarrow> (a + (b - a) * u, g'))"

definition randbelow :: "nat \<Rightarrow> rng \<Rightarrow> nat \<times> rng" where
  "randbelow n g = (case random_unit g of (u, g') \<Rightarrow> (nat \<lfloor>u * real n\<rfloor>, g'))"

definition randint :: "int \<Rightarrow> int \<Rightarrow> rng \<Rightarrow> int \<times> rng" where
  "randint a b g = (case randbelow (nat (b - a + 1)) g of (k, g') \<Rightarrow> (a + int k, g'))"

definition choice :: "'a list \<Rightarrow> rng \<Rightarrow> error + ('a \<times> rng)" where
  "choice seq g =
     (if seq = [] then Inl IndexError
      else case randbelow (length seq) g of (k, g') \<Rightarrow> Inr (seq ! k, g'))"

subsection \<open>Segment planner\<close>

type_synonym segment = "real \<times> real"

text \<open>Python's \<^verbatim>\<open>int(x)\<close> on a float truncates towards zero.\<close>

definition py_int :: "real \<Rightarrow> int" where
  "py_int x = (if 0 \<le> x then \<lfloor>x\<rfloor> else \<lceil>x\<rceil>)"

text \<open>The target count, lines 78-83 of \<^verbatim>\<open>_generate_strategic_segments\<close>.\<close>

definition target_clips :: "real \<Rightarrow> int" where
  "target_clips duration =
     (if duration \<le> 300 then min 5 (max 3 (py_int (duration / 80)))
      else if duration \<le> 600 then min 7 (max 5 (py_int (duration / 90)))
      else min 8 (max 6 (py_int (duration / 120))))"

text \<open>
  The body of \<^verbatim>\<open>for i in range(target_clips)\<close>, lines 90-111: the remaining
  indices, the generator and the list \<^verbatim>\<open>segments\<close> built so far are threaded through.
  (\<^verbatim>\<open>section_end\<close> is computed by the source and never read.)
\<close>

fun segments_loop ::
  "real \<Rightarrow> int \<Rightarrow> real \<Rightarrow> nat list \<Rightarrow> rng \<Rightarrow> segment list \<Rightarrow> segment list \<times> rng" where
  "segments_loop duration target section_size [] g segments = (segments, g)"
| "segments_loop duration target section_size (i # is) g segments =
     (let section_start = real i * section_size in
      case uniform (- section_size * 0.2) (section_size * 0.2) g of (start_offset, g1) \<Rightarrow>
      let start_time = max 0 (section_start + start_offset) in
      case (if i = 0 then randint 30 60 g1
            else if int i < target div 3 then randint 25 70 g1
            else randint 20 90 g1) of (clip_duration, g2) \<Rightarrow>
      let end_time = min (start_time + real_of_int clip_duration) (duration - 1) in
      segments_loop duration target section_size is g2
        (if end_time - start_time \<ge> 20 then segments @ [(start_time, end_time)]
         else segments))"

text \<open>
  \<^verbatim>\<open>_remove_overlaps\<close>, lines 119-142. \<open>overlaps_loop\<close> is the \<^verbatim>\<open>for\<close> loop over
  \<^verbatim>\<open>segments[1:]\<close> with the list \<^verbatim>\<open>cleaned\<close> as accumulator; \<^verbatim>\<open>cleaned[-1]\<close>
  is \<^term>\<open>last cleaned\<close>, and \<^verbatim>\<open>cleaned\<close> is never empty there.
\<close>

fun overlaps_loop :: "segment list \<Rightarrow> segment list \<Rightarrow> segment list" where
  "overlaps_loop cleaned [] = cleaned"
| "overlaps_loop cleaned (current # rest) =
     (let lst = last cleaned in
      if fst current < snd lst then
        (if fst current < snd lst - 10 then overlaps_loop cleaned rest
         else
           (let adjusted_start = snd lst + 1 in
            if snd current - adjusted_start \<ge> 20
            then overlaps_loop (cleaned @ [(adjusted_start, snd current)]) rest
            else overlaps_loop cleaned rest))
      else overlaps_loop (cleaned @ [current]) rest)"

definition remove_overlaps :: "segment list \<Rightarrow> segment list" where
  "remove_overlaps segments =
     (case segments of [] \<Rightarrow> [] | first # rest \<Rightarrow> overlaps_loop [first] rest)"

text \<open>
  \<^verbatim>\<open>_generate_strategic_segments\<close>. Python's \<^verbatim>\<open>sorted(segments, key=lambda x: x[0])\<close>
  is a stable sort on the start time, as \<^const>\<open>sort_key\<close> is.
\<close>

definition generate_strategic_segments :: "real \<Rightarrow> rng \<Rightarrow> segment list \<times> rng" where
  "generate_strategic_segments duration g =
     (let target = target_clips duration;
          section_size = duration / real_of_int target in
      case segments_loop duration target section_size [0 ..< nat target] g [] of
        (segments, g') \<Rightarrow> (remove_overlaps (sort_key fst segments), g'))"

subsection \<open>Values of the scorer\<close>

text \<open>
  What \<^verbatim>\<open>json.loads\<close> and \<^verbatim>\<open>response.json()\<close> return: the external path copies such
  values into the descriptor unchecked, so the descriptor's fields that it fills hold
  JSON values. A JSON object is a Python dict, read through \<^const>\<open>map_of\<close>.
\<close>

datatype json =
    JNull | JBool bool | JInt int | JReal real | JStr string
  | JArr "json list" | JObj "(string \<times> json) list"

text \<open>The dict \<^verbatim>\<open>context\<close> built by \<^verbatim>\<open>_analyze_segment\<close>, lines 149-156.\<close>

record segment_context =
  ctx_start_time :: real
  ctx_end_time :: real
  ctx_duration :: real
  ctx_clip_number :: int
  ctx_position_in_video :: real
  ctx_total_duration :: real

text \<open>The dict both scoring paths return (the ClipDescriptor), keys as in the source.\<close>

record clip =
  start_time :: real
  end_time :: real
  duration :: real
  title :: json
  virality_score :: json
  content_type :: json
  hook_strength :: json
  completion_score :: int
  engagement_factors :: json
  transcript :: string

subsection \<open>String formatting\<close>

text \<open>
  \<^verbatim>\<open>str(n)\<close> of an int, and the format specifications \<^verbatim>\<open>:.0f\<close> and \<^verbatim>\<open>:.1f\<close>, which
  round half to even and keep the sign of a negative number that rounds to zero.
  Strings are byte lists: a non-ASCII character is its UTF-8 bytes.
\<close>

definition digit_char :: "nat \<Rightarrow> char" where
  "digit_char d = char_of (48 + d)"

function show_nat :: "nat \<Rightarrow> string" where
  "show_nat n = (if n < 10 then [digit_char n] else show_nat (n div 10) @ [digit_char (n mod 10)])"
  by pat_completeness auto
termination
  by (relation "measure (\<lambda>n. n)") auto

declare show_nat.simps [simp del]

definition py_str :: "int \<Rightarrow> string" where
  "py_str i = (if i < 0 then ''-'' else []) @ show_nat (nat \<bar>i\<bar>)"

definition round_half_even :: "real \<Rightarrow> int" where
  "round_half_even x =
     (let f = \<lfloor>x\<rfloor>; d = x - of_int f in
      if d < 1 / 2 then f else if 1 / 2 < d then f + 1
      else if even f then f else f + 1)"

definition format_f0 :: "real \<Rightarrow> string" where
  "format_f0 x = (if x < 0 then ''-'' else []) @ show_nat (nat \<bar>round_half_even x\<bar>)"

definition format_f1 :: "real \<Rightarrow> string" where
  "format_f1 x =
     (let n = nat \<bar>round_half_even (x * 10)\<bar> in
      (if x < 0 then ''-'' else []) @ show_nat (n div 10) @ ''.'' @ show_nat (n mod 10))"

subsection \<open>Heuristic scoring\<close>

text \<open>
  \<^verbatim>\<open>_enhanced_fallback_analysis\<close>, lines 279-339. \<open>fallback_score\<close> is the score
  before the cap of line 306: the base draw, then the position bonus, then the duration
  bonus, each bonus drawing only in its branch.
\<close>

definition fallback_score :: "real \<Rightarrow> real \<Rightarrow> rng \<Rightarrow> int \<times> rng" where
  "fallback_score position dur g =
     (case randint 60 80 g of (score0, g1) \<Rightarrow>
      case (if position < 0.2 then (case randint 10 20 g1 of (b, g') \<Rightarrow> (score0 + b, g'))
            else if position < 0.4 then (case randint 5 15 g1 of (b, g') \<Rightarrow> (score0 + b, g'))
            else if position > 0.8 then (case randint 3 12 g1 of (b, g') \<Rightarrow> (score0 + b, g'))
            else (score0, g1)) of (score1, g2) \<Rightarrow>
      (if 30 \<le> dur \<and> dur \<le> 60 then (case randint 5 15 g2 of (b, g') \<Rightarrow> (score1 + b, g'))
       else if 20 \<le> dur \<and> dur < 30 then (case randint 2 8 g2 of (b, g') \<Rightarrow> (score1 + b, g'))
       else if 60 < dur \<and> dur \<le> 90 then (case randint 0 5 g2 of (b, g') \<Rightarrow> (score1 + b, g'))
       else (score1, g2)))"

definition cap_score :: "int \<Rightarrow> int" where
  "cap_score score = min (max score 30) 99"

text \<open>The ten title templates of lines 309-320, filled in for one clip.\<close>

definition title_templates :: "int \<Rightarrow> real \<Rightarrow> string list" where
  "title_templates clip_number dur =
     (let d = format_f0 dur in
      [ [CHR 0xF0, CHR 0x9F, CHR 0x94, CHR 0xA5] @ '' Epic Moment #'' @ py_str clip_number
          @ '': '' @ d @ ''s of Pure Action!'',
        [CHR 0xF0, CHR 0x9F, CHR 0x8E, CHR 0xAF] @ '' Must-Watch: '' @ d @ ''-Second Viral Clip!'',
        [CHR 0xE2, CHR 0x9A, CHR 0xA1] @ '' Incredible '' @ d @ ''s That Will Amaze You!'',
        [CHR 0xF0, CHR 0x9F, CHR 0x9A, CHR 0x80] @ '' Viral Alert: '' @ d @ ''s of Epic Content!'',
        [CHR 0xF0, CHR 0x9F, CHR 0x92, CHR 0xA5] @ '' Mind-Blowing '' @ d @ ''-Second Moment!'',
        [CHR 0xF0, CHR 0x9F, CHR 0x8E, CHR 0xAC] @ '' Cinema Gold: '' @ d
          @ ''s of Pure Entertainment!'',
        [CHR 0xF0, CHR 0x9F, CHR 0x94, CHR 0xA5] @ '' This '' @ d @ ''s Clip is INSANE!'',
        [CHR 0xE2, CHR 0xAD, CHR 0x90] @ '' Highlight Reel: '' @ d @ ''s of Greatness!'',
        [CHR 0xF0, CHR 0x9F, CHR 0x8E, CHR 0xAF] @ '' Perfect '' @ d @ ''s for Social Media!'',
        [CHR 0xF0, CHR 0x9F, CHR 0x92, CHR 0x8E] @ '' Hidden Gem: '' @ d
          @ ''s of Quality Content!'' ])"

text \<open>The list \<^verbatim>\<open>content_types\<close> of line 325.\<close>

definition content_types :: "string list" where
  "content_types = [''entertainment'', ''educational'', ''reaction'', ''tutorial'', ''comedy'']"

definition enhanced_fallback_analysis :: "segment_context \<Rightarrow> rng \<Rightarrow> error + (clip \<times> rng)" where
  "enhanced_fallback_analysis ctx g =
     (let dur = ctx_duration ctx;
          position = ctx_position_in_video ctx;
          clip_number = ctx_clip_number ctx;
          start = ctx_start_time ctx in
      case fallback_score position dur g of (score0, g1) \<Rightarrow>
      let score = cap_score score0 in
      case choice (title_templates clip_number dur) g1 of Inl e \<Rightarrow> Inl e
      | Inr (chosen_title, g2) \<Rightarrow>
      case choice content_types g2 of Inl e \<Rightarrow> Inl e
      | Inr (chosen_type, g3) \<Rightarrow>
      case randint 50 90 g3 of (hook, g4) \<Rightarrow>
      case randint 60 95 g4 of (completion, g5) \<Rightarrow>
      Inr (\<lparr> start_time = start,
             end_time = ctx_end_time ctx,
             duration = dur,
             title = JStr chosen_title,
             virality_score = JInt score,
             content_type = JStr chosen_type,
             hook_strength = JInt hook,
             completion_score = completion,
             engagement_factors =
               JArr [JStr ''strategic_positioning'', JStr ''optimal_duration'',
                     JStr ''enhanced_analysis''],
             transcript = ''Strategic clip from '' @ format_f1 start @ ''s to ''
               @ format_f1 (ctx_end_time ctx) @ ''s - '' @ chosen_type @ '' content'' \<rparr>, g5))"

subsection \<open>External-assisted scoring\<close>

text \<open>
  The configuration module \<^verbatim>\<open>app/config.py\<close> is outside the sources; of its
  \<^verbatim>\<open>settings\<close> only the API key decides anything here (line 20).
\<close>

record settings =
  openrouter_api_key :: "string option"

definition openrouter_available :: "settings \<Rightarrow> bool" where
  "openrouter_available s = (case openrouter_api_key s of None \<Rightarrow> False | Some k \<Rightarrow> k \<noteq> [])"

text \<open>
  What \<^verbatim>\<open>requests.post\<close> hands back: the status code and the outcome of
  \<^verbatim>\<open>response.json()\<close> (\<open>None\<close> when the body is not JSON and the call raises).
\<close>

record response =
  status_code :: int
  json_body :: "json option"

text \<open>Python subscripting \<^verbatim>\<open>v[key]\<close> with a string key and \<^verbatim>\<open>v[0]\<close>.\<close>

fun subscript_key :: "json \<Rightarrow> string \<Rightarrow> error + json" where
  "subscript_key (JObj kvs) k = (case map_of kvs k of None \<Rightarrow> Inl KeyError | Some v \<Rightarrow> Inr v)"
| "subscript_key _ k = Inl TypeError"

fun subscript_0 :: "json \<Rightarrow> error + json" where
  "subscript_0 (JArr []) = Inl IndexError"
| "subscript_0 (JArr (v # vs)) = Inr v"
| "subscript_0 (JStr []) = Inl IndexError"
| "subscript_0 (JStr (c # cs)) = Inr (JStr [c])"
| "subscript_0 (JObj kvs) = Inl KeyError"
| "subscript_0 _ = Inl TypeError"

text \<open>\<^verbatim>\<open>d.get(key, default)\<close>; on a value that is no dict it raises AttributeError.\<close>

fun dict_get :: "json \<Rightarrow> string \<Rightarrow> json \<Rightarrow> error + json" where
  "dict_get (JObj kvs) k dflt = Inr (case map_of kvs k of None \<Rightarrow> dflt | Some v \<Rightarrow> v)"
| "dict_get _ k dflt = Inl AttributeError"

text \<open>
  The whitespace \<^verbatim>\<open>str.strip()\<close> removes, as far as it is ASCII; \<open>strip_nonempty s\<close>
  is the truth value of \<^verbatim>\<open>s.strip()\<close>.
\<close>

definition is_space :: "char \<Rightarrow> bool" where
  "is_space c = (let n = of_char c :: nat in (9 \<le> n \<and> n \<le> 13) \<or> (28 \<le> n \<and> n \<le> 32))"

definition strip_nonempty :: "string \<Rightarrow> bool" where
  "strip_nonempty s = (\<exists>c \<in> set s. \<not> is_space c)"

text \<open>
  \<^verbatim>\<open>re.search(r'\{.*\}', text, re.DOTALL)\<close>: the leftmost match starts at the first
  opening brace and, the star being greedy and the dot matching newlines, ends at the
  last closing brace after it.
\<close>

definition search_braces :: "string \<Rightarrow> string option" where
  "search_braces s =
     (case dropWhile (\<lambda>c. c \<noteq> CHR 0x7B) s of
        [] \<Rightarrow> None
      | b # after \<Rightarrow>
          (case dropWhile (\<lambda>c. c \<noteq> CHR 0x7D) (rev after) of
             [] \<Rightarrow> None
           | r \<Rightarrow> Some (b # rev r)))"

text \<open>
  Lines 240-249 of the \<^verbatim>\<open>try\<close> body, for a response of status 200: the text to
  search, the content unless it is blank, else the reasoning. \<open>Inl\<close> is an exception
  that the \<^verbatim>\<open>except\<close> of line 273 catches: a body that is not JSON, a missing key,
  a content that has no \<^verbatim>\<open>strip\<close>, a text that cannot be sliced or searched.
\<close>

definition analysis_text :: "response \<Rightarrow> error + string" where
  "analysis_text resp =
     (case json_body resp of None \<Rightarrow> Inl JSONDecodeError
      | Some result \<Rightarrow>
      case subscript_key result ''choices'' of Inl e \<Rightarrow> Inl e
      | Inr choices \<Rightarrow>
      case subscript_0 choices of Inl e \<Rightarrow> Inl e
      | Inr choice0 \<Rightarrow>
      case subscript_key choice0 ''message'' of Inl e \<Rightarrow> Inl e
      | Inr message \<Rightarrow>
      case dict_get message ''content'' (JStr []) of Inl e \<Rightarrow> Inl e
      | Inr content \<Rightarrow>
      case dict_get message ''reasoning'' (JStr []) of Inl e \<Rightarrow> Inl e
      | Inr reasoning \<Rightarrow>
      (case content of
         JStr c \<Rightarrow>
           (case (if strip_nonempty c then content else reasoning) of
              JStr t \<Rightarrow> Inr t
            | _ \<Rightarrow> Inl TypeError)
       | _ \<Rightarrow> Inl AttributeError))"

text \<open>
  Lines 251-272: \<open>Inr None\<close> is falling through the \<^verbatim>\<open>else\<close> of line 271,
  \<open>Inr (Some d)\<close> is the \<^verbatim>\<open>return\<close> of line 259. \<open>json_loads\<close> is the library's
  \<^verbatim>\<open>json.loads\<close>, \<open>None\<close> where it raises.
\<close>

definition parse_analysis ::
  "(string \<Rightarrow> json option) \<Rightarrow> segment_context \<Rightarrow> response \<Rightarrow> error + clip option" where
  "parse_analysis json_loads ctx resp =
     (case analysis_text resp of Inl e \<Rightarrow> Inl e
      | Inr atext \<Rightarrow>
          (case search_braces atext of
             None \<Rightarrow> Inr None
           | Some json_match \<Rightarrow>
               (case json_loads json_match of
                  None \<Rightarrow> Inl JSONDecodeError
                | Some (JObj kvs) \<Rightarrow>
                    (let get = (\<lambda>k dflt. case map_of kvs k of None \<Rightarrow> dflt | Some v \<Rightarrow> v) in
                     Inr (Some
                       \<lparr> start_time = ctx_start_time ctx,
                         end_time = ctx_end_time ctx,
                         duration = ctx_duration ctx,
                         title = get ''title''
                           (JStr (''Viral Clip '' @ py_str (ctx_clip_number ctx))),
                         virality_score = get ''virality_score'' (JInt 75),
                         content_type = get ''content_type'' (JStr ''entertainment''),
                         hook_strength = get ''hook_strength'' (JInt 70),
                         completion_score = 80,
                         engagement_factors = get ''engagement_factors''
                           (JArr [JStr ''ai_analyzed'']),
                         transcript = ''AI-analyzed content from ''
                           @ format_f1 (ctx_start_time ctx) @ ''s to ''
                           @ format_f1 (ctx_end_time ctx) @ ''s'' \<rparr>))
                | Some _ \<Rightarrow> Inl AttributeError)))"

text \<open>
  \<^verbatim>\<open>_analyze_with_openrouter\<close>, lines 170-277. The backend is the environment: for the
  request built from a context, \<open>post\<close> gives what \<^verbatim>\<open>requests.post\<close> returns, or the
  exception it raises (a timeout, a refused connection). Every way out but the
  \<^verbatim>\<open>return\<close> of line 259 ends in the \<^verbatim>\<open>raise\<close> of line 277.
\<close>

definition analyze_with_openrouter ::
  "(string \<Rightarrow> json option) \<Rightarrow> (segment_context \<Rightarrow> error + response) \<Rightarrow> segment_context
     \<Rightarrow> error + clip" where
  "analyze_with_openrouter json_loads post ctx =
     (case post ctx of Inl e \<Rightarrow> Inl e
      | Inr resp \<Rightarrow>
          (if status_code resp = 200 then
             (case parse_analysis json_loads ctx resp of
                Inr (Some analysis) \<Rightarrow> Inr analysis
              | _ \<Rightarrow> Inl (ApiError (status_code resp)))
           else Inl (ApiError (status_code resp))))"

text \<open>
  \<^verbatim>\<open>_analyze_segment\<close>, lines 144-168. The division of line 154 stands before the
  \<^verbatim>\<open>try\<close>; the \<^verbatim>\<open>except\<close> of line 164 catches whatever the external path raises.
  (The dict the external path returns is never empty, so \<^verbatim>\<open>if analysis\<close> holds.)
\<close>

definition analyze_segment ::
  "settings \<Rightarrow> (string \<Rightarrow> json option) \<Rightarrow> (segment_context \<Rightarrow> error + response)
     \<Rightarrow> real \<Rightarrow> real \<Rightarrow> real \<Rightarrow> int \<Rightarrow> rng \<Rightarrow> error + (clip \<times> rng)" where
  "analyze_segment cfg json_loads post start_t end_t total_duration clip_number g =
     (if total_duration = 0 then Inl ZeroDivisionError
      else
        (let ctx = \<lparr> ctx_start_time = start_t,
                     ctx_end_time = end_t,
                     ctx_duration = end_t - start_t,
                     ctx_clip_number = clip_number,
                     ctx_position_in_video = start_t / total_duration,
                     ctx_total_duration = total_duration \<rparr> in
         if openrouter_available cfg then
           (case analyze_with_openrouter json_loads post ctx of
              Inr analysis \<Rightarrow> Inr (analysis, g)
            | Inl e \<Rightarrow> enhanced_fallback_analysis ctx g)
         else enhanced_fallback_analysis ctx g))"

subsection \<open>The pipeline\<close>

text \<open>
  \<^verbatim>\<open>_get_video_info\<close>, lines 54-71: \<open>probe\<close> is the duration the \<^verbatim>\<open>try\<close> body reads
  from ffprobe, \<open>None\<close> when anything in it raises; the default is ten minutes.
\<close>

definition get_video_info :: "real option \<Rightarrow> real" where
  "get_video_info probe = (case probe of Some d \<Rightarrow> d | None \<Rightarrow> 600)"

text \<open>
  The slice \<^verbatim>\<open>clip_data['title'][:50]\<close> of the log line 45 raises TypeError unless the
  title is a string or a list.
\<close>

fun sliceable :: "json \<Rightarrow> bool" where
  "sliceable (JStr s) = True"
| "sliceable (JArr vs) = True"
| "sliceable _ = False"

text \<open>The loop of lines 39-45 over \<^verbatim>\<open>enumerate(segments)\<close>; \<open>i\<close> is the index.\<close>

fun clips_loop ::
  "settings \<Rightarrow> (string \<Rightarrow> json option) \<Rightarrow> (segment_context \<Rightarrow> error + response)
     \<Rightarrow> real \<Rightarrow> int \<Rightarrow> segment list \<Rightarrow> rng \<Rightarrow> clip list \<Rightarrow> error + (clip list \<times> rng)" where
  "clips_loop cfg json_loads post total_duration i [] g clips = Inr (clips, g)"
| "clips_loop cfg json_loads post total_duration i ((start_t, end_t) # rest) g clips =
     (case analyze_segment cfg json_loads post start_t end_t total_duration (i + 1) g of
        Inl e \<Rightarrow> Inl e
      | Inr (clip_data, g') \<Rightarrow>
          (if sliceable (title clip_data)
           then clips_loop cfg json_loads post total_duration (i + 1) rest g' (clips @ [clip_data])
           else Inl TypeError))"

text \<open>The \<^verbatim>\<open>try\<close> body of \<^verbatim>\<open>generate_intelligent_clips\<close>, lines 28-48.\<close>

definition clips_body ::
  "settings \<Rightarrow> (string \<Rightarrow> json option) \<Rightarrow> (segment_context \<Rightarrow> error + response)
     \<Rightarrow> real option \<Rightarrow> rng \<Rightarrow> error + (clip list \<times> rng)" where
  "clips_body cfg json_loads post probe g =
     (let total_duration = get_video_info probe in
      case generate_strategic_segments total_duration g of
        (segments, g') \<Rightarrow> clips_loop cfg json_loads post total_duration 0 segments g' [])"

text \<open>\<^verbatim>\<open>generate_intelligent_clips\<close>: the \<^verbatim>\<open>except\<close> of line 50 returns the empty list.\<close>

definition generate_intelligent_clips ::
  "settings \<Rightarrow> (string \<Rightarrow> json option) \<Rightarrow> (segment_context \<Rightarrow> error + response)
     \<Rightarrow> real option \<Rightarrow> rng \<Rightarrow> clip list" where
  "generate_intelligent_clips cfg json_loads post probe g =
     (case clips_body cfg json_loads post probe g of
        Inl e \<Rightarrow> []
      | Inr (clips, g') \<Rightarrow> clips)"

subsection \<open>The target count as the specification words it\<close>

text \<open>
  The specification's table of section 4.1: the quotient, taken as \<^verbatim>\<open>int\<close> takes it,
  clamped to the tier's range.
\<close>

definition spec_clamp :: "int \<Rightarrow> int \<Rightarrow> int \<Rightarrow> int" where
  "spec_clamp lo hi x = (if x < lo then lo else if hi < x then hi else x)"

definition spec_target_count :: "real \<Rightarrow> int" where
  "spec_target_count d =
     (if d \<le> 300 then spec_clamp 3 5 (py_int (d / 80))
      else if d \<le> 600 then spec_clamp 5 7 (py_int (d / 90))
      else spec_clamp 6 8 (py_int (d / 120)))"


section \<open>Properties of the planner\<close>

subsection \<open>Target count\<close>

text \<open>
  Claim C4. For every duration the planner's target count is the truncated quotient
  clamped to the tier's range: \<open>duration / 80\<close> in \<open>[3, 5]\<close> up to 300 seconds,
  \<open>duration / 90\<close> in \<open>[5, 7]\<close> up to 600 seconds, \<open>duration / 120\<close> in \<open>[6, 8]\<close>
  beyond; at the tier boundaries, 300 gives 3, 301 gives 5, 600 gives 6 and 601 gives 6,
  each inside its tier's range.
\<close>

theorem target_clips_tiers:
  "target_clips d = spec_target_count d
   \<and> (if d \<le> 300 then 3 \<le> target_clips d \<and> target_clips d \<le> 5
      else if d \<le> 600 then 5 \<le> target_clips d \<and> target_clips d \<le> 7
      else 6 \<le> target_clips d \<and> target_clips d \<le> 8)
   \<and> target_clips 300 = 3 \<and> target_clips 301 = 5
   \<and> target_clips 600 = 6 \<and> target_clips 601 = 6"
proof -
  have tiers: "target_clips d = spec_target_count d"
    by (simp add: target_clips_def spec_target_count_def spec_clamp_def)
  have ranges: "if d \<le> 300 then 3 \<le> target_clips d \<and> target_clips d \<le> 5
      else if d \<le> 600 then 5 \<le> target_clips d \<and> target_clips d \<le> 7
      else 6 \<le> target_clips d \<and> target_clips d \<le> 8"
    by (simp add: target_clips_def)
  have boundaries: "target_clips 300 = 3 \<and> target_clips 301 = 5
      \<and> target_clips 600 = 6 \<and> target_clips 601 = 6"
    by (simp add: target_clips_def py_int_def)
  from tiers ranges boundaries show ?thesis by blast
qed

subsection \<open>Overlap resolution, one candidate at a time\<close>

lemma overlaps_loop_snoc:
  "overlaps_loop cleaned (rest @ [cur]) =
     (let acc = overlaps_loop cleaned rest; lst = last acc in
      if snd lst \<le> fst cur then acc @ [cur]
      else if fst cur < snd lst - 10 then acc
      else if 20 \<le> snd cur - (snd lst + 1) then acc @ [(snd lst + 1, snd cur)]
      else acc)"
  by (induction rest arbitrary: cleaned) (auto simp: Let_def)

text \<open>
  Claim C3. In the left-to-right pass, a candidate \<open>cur\<close> that follows at least one other
  is compared with the last segment accepted before it: it is appended unchanged when
  \<open>cur.start \<ge> last.end\<close>; it is dropped when \<open>cur.start < last.end - 10\<close>; otherwise its
  start is moved to \<open>last.end + 1\<close>, and the moved window is appended exactly when
  its new length is at least 20.
\<close>

theorem remove_overlaps_step:
  assumes "xs \<noteq> []"
  shows "remove_overlaps (xs @ [cur]) =
     (let accepted = remove_overlaps xs; lst = last accepted in
      if fst cur \<ge> snd lst then accepted @ [cur]
      else if fst cur < snd lst - 10 then accepted
      else if snd cur - (snd lst + 1) \<ge> 20 then accepted @ [(snd lst + 1, snd cur)]
      else accepted)"
proof (cases xs)
  case Nil
  with assms show ?thesis by simp
next
  case (Cons first rest)
  then show ?thesis
    by (simp add: remove_overlaps_def overlaps_loop_snoc Let_def)
qed

theorem remove_overlaps_step_witness:
  "remove_overlaps ([(0, 50)] @ [(60, 90)]) = [(0, 50), (60, 90)]
   \<and> remove_overlaps ([(0, 50)] @ [(30, 90)]) = [(0, 50)]
   \<and> remove_overlaps ([(0, 50)] @ [(45, 90)]) = [(0, 50), (51, 90)]
   \<and> remove_overlaps ([(0, 50)] @ [(40, 70)]) = [(0, 50)]"
proof -
  have one: "remove_overlaps [(0, 50)] = [(0, 50)]"
    by (simp add: remove_overlaps_def)
  have ne: "[(0::real, 50::real)] \<noteq> []" by simp
  show ?thesis
    using remove_overlaps_step [OF ne, of "(60, 90)"] remove_overlaps_step [OF ne, of "(30, 90)"]
      remove_overlaps_step [OF ne, of "(45, 90)"] remove_overlaps_step [OF ne, of "(40, 70)"]
    by (simp add: one)
qed

subsection \<open>Ranges of the random draws\<close>

lemma random_unit_range: "0 \<le> fst (random_unit g) \<and> fst (random_unit g) < 1"
  by (simp add: random_unit_def frac_lt_1)

lemma randbelow_less: "0 < n \<Longrightarrow> fst (randbelow n g) < n"
proof -
  assume n: "0 < n"
  obtain u g' where ug: "random_unit g = (u, g')" by (cases "random_unit g")
  have u: "0 \<le> u" "u < 1" using random_unit_range [of g] ug by auto
  have "u * real n < real n" using u n by simp
  then have "\<lfloor>u * real n\<rfloor> < int n" by (simp add: floor_less_iff)
  moreover have "0 \<le> \<lfloor>u * real n\<rfloor>" using u by simp
  ultimately have "nat \<lfloor>u * real n\<rfloor> < n" by linarith
  then show ?thesis by (simp add: randbelow_def ug)
qed

lemma randint_range: "a \<le> b \<Longrightarrow> a \<le> fst (randint a b g) \<and> fst (randint a b g) \<le> b"
  using randbelow_less [of "nat (b - a + 1)" g]
  by (auto simp: randint_def split: prod.splits)

subsection \<open>The plan is ordered and free of overlaps\<close>

lemma segments_loop_ok:
  "\<forall>s\<in>set acc. 20 \<le> snd s - fst s \<and> 0 \<le> fst s \<and> snd s \<le> d - 1 \<Longrightarrow>
   \<forall>s\<in>set (fst (segments_loop d t sz idxs g acc)). 20 \<le> snd s - fst s \<and> 0 \<le> fst s \<and> snd s \<le> d - 1"
proof (induction idxs arbitrary: g acc)
  case Nil
  then show ?case by simp
next
  case (Cons i idxs)
  show ?case
    apply (simp only: segments_loop.simps Let_def split: prod.splits)
    apply (intro allI impI)
    apply (rule Cons.IH)
    using Cons.prems apply auto
    done
qed

lemma chain_last:
  "sorted_wrt (\<lambda>a b. snd a \<le> fst b) xs \<Longrightarrow> \<forall>s\<in>set xs. fst s \<le> snd s \<Longrightarrow> xs \<noteq> [] \<Longrightarrow>
   \<forall>a\<in>set xs. snd a \<le> snd (last (xs :: segment list))"
proof (induction xs rule: rev_induct)
  case Nil
  then show ?case by simp
next
  case (snoc x xs)
  then show ?case by (fastforce simp: sorted_wrt_append)
qed

lemma chain_snoc:
  assumes "sorted_wrt (\<lambda>a b. snd a \<le> fst b) xs" "\<forall>s\<in>set xs. fst s \<le> snd s" "xs \<noteq> []"
    "snd (last xs) \<le> fst x"
  shows "sorted_wrt (\<lambda>a b. snd a \<le> fst b) (xs @ [x :: segment])"
  using chain_last [OF assms(1-3)] assms by (fastforce simp: sorted_wrt_append)

lemma overlaps_loop_inv:
  assumes "cleaned \<noteq> []"
    "\<forall>s\<in>set cleaned \<union> set rest. 20 \<le> snd s - fst s \<and> 0 \<le> fst s \<and> snd s \<le> d"
    "sorted_wrt (\<lambda>a b. snd a \<le> fst b) cleaned"
  shows "(\<forall>s\<in>set (overlaps_loop cleaned rest). 20 \<le> snd s - fst s \<and> 0 \<le> fst s \<and> snd s \<le> d)
     \<and> sorted_wrt (\<lambda>a b. snd a \<le> fst b) (overlaps_loop cleaned rest)"
  using assms
proof (induction rest arbitrary: cleaned)
  case Nil
  then show ?case by simp
next
  case (Cons cur rest)
  let ?lst = "last cleaned"
  have lst: "?lst \<in> set cleaned" using Cons.prems(1) by simp
  then have lst_ok: "20 \<le> snd ?lst - fst ?lst" "0 \<le> fst ?lst" using Cons.prems(2) by auto
  have cur_ok: "20 \<le> snd cur - fst cur \<and> 0 \<le> fst cur \<and> snd cur \<le> d" using Cons.prems(2) by simp
  have rest_ok: "\<forall>s\<in>set rest. 20 \<le> snd s - fst s \<and> 0 \<le> fst s \<and> snd s \<le> d" using Cons.prems(2) by simp
  have cl_ok: "\<forall>s\<in>set cleaned. 20 \<le> snd s - fst s \<and> 0 \<le> fst s \<and> snd s \<le> d" using Cons.prems(2) by simp
  have le: "\<forall>s\<in>set cleaned. fst s \<le> snd s"
  proof
    fix s assume "s \<in> set cleaned"
    with cl_ok have "20 \<le> snd s - fst s" by blast
    then show "fst s \<le> snd s" by linarith
  qed
  consider (keep) "snd ?lst \<le> fst cur"
    | (drop) "fst cur < snd ?lst" "fst cur < snd ?lst - 10"
    | (shift) "fst cur < snd ?lst" "\<not> fst cur < snd ?lst - 10" "20 \<le> snd cur - (snd ?lst + 1)"
    | (short) "fst cur < snd ?lst" "\<not> fst cur < snd ?lst - 10" "\<not> 20 \<le> snd cur - (snd ?lst + 1)"
    by linarith
  then show ?case
  proof cases
    case keep
    have "sorted_wrt (\<lambda>a b. snd a \<le> fst b) (cleaned @ [cur])"
      using chain_snoc [OF Cons.prems(3) le Cons.prems(1)] keep by simp
    moreover have "\<forall>s\<in>set (cleaned @ [cur]) \<union> set rest. 20 \<le> snd s - fst s \<and> 0 \<le> fst s \<and> snd s \<le> d"
      using cl_ok cur_ok rest_ok by auto
    ultimately have "(\<forall>s\<in>set (overlaps_loop (cleaned @ [cur]) rest). 20 \<le> snd s - fst s \<and> 0 \<le> fst s \<and> snd s \<le> d)
     \<and> sorted_wrt (\<lambda>a b. snd a \<le> fst b) (overlaps_loop (cleaned @ [cur]) rest)"
      by (intro Cons.IH) simp_all
    with keep show ?thesis by (simp add: Let_def)
  next
    case drop
    have "(\<forall>s\<in>set (overlaps_loop cleaned rest). 20 \<le> snd s - fst s \<and> 0 \<le> fst s \<and> snd s \<le> d)
     \<and> sorted_wrt (\<lambda>a b. snd a \<le> fst b) (overlaps_loop cleaned rest)"
      using cl_ok rest_ok Cons.prems by (intro Cons.IH) auto
    with drop show ?thesis by (simp add: Let_def)
  next
    case shift
    let ?new = "(snd ?lst + 1, snd cur)"
    have "sorted_wrt (\<lambda>a b. snd a \<le> fst b) (cleaned @ [?new])"
      using chain_snoc [OF Cons.prems(3) le Cons.prems(1), of ?new] by simp
    moreover have "\<forall>s\<in>set (cleaned @ [?new]) \<union> set rest. 20 \<le> snd s - fst s \<and> 0 \<le> fst s \<and> snd s \<le> d"
      using cl_ok cur_ok rest_ok shift lst_ok by auto
    ultimately have "(\<forall>s\<in>set (overlaps_loop (cleaned @ [?new]) rest). 20 \<le> snd s - fst s \<and> 0 \<le> fst s \<and> snd s \<le> d)
     \<and> sorted_wrt (\<lambda>a b. snd a \<le> fst b) (overlaps_loop (cleaned @ [?new]) rest)"
      by (intro Cons.IH) simp_all
    with shift show ?thesis by (simp add: Let_def)
  next
    case short
    have "(\<forall>s\<in>set (overlaps_loop cleaned rest). 20 \<le> snd s - fst s \<and> 0 \<le> fst s \<and> snd s \<le> d)
     \<and> sorted_wrt (\<lambda>a b. snd a \<le> fst b) (overlaps_loop cleaned rest)"
      using cl_ok rest_ok Cons.prems by (intro Cons.IH) auto
    with short show ?thesis by (simp add: Let_def)
  qed
qed

lemma remove_overlaps_inv:
  assumes "\<forall>s\<in>set xs. 20 \<le> snd s - fst s \<and> 0 \<le> fst s \<and> snd s \<le> d"
  shows "(\<forall>s\<in>set (remove_overlaps xs). 20 \<le> snd s - fst s \<and> 0 \<le> fst s \<and> snd s \<le> d)
     \<and> sorted_wrt (\<lambda>a b. snd a \<le> fst b) (remove_overlaps xs)"
proof (cases xs)
  case Nil
  then show ?thesis by (simp add: remove_overlaps_def)
next
  case (Cons x rest)
  have "(\<forall>s\<in>set (overlaps_loop [x] rest). 20 \<le> snd s - fst s \<and> 0 \<le> fst s \<and> snd s \<le> d)
     \<and> sorted_wrt (\<lambda>a b. snd a \<le> fst b) (overlaps_loop [x] rest)"
    using assms Cons by (intro overlaps_loop_inv) auto
  with Cons show ?thesis by (simp add: remove_overlaps_def)
qed

lemma plan_inv:
  "(\<forall>s\<in>set (fst (generate_strategic_segments d g)). 20 \<le> snd s - fst s \<and> 0 \<le> fst s \<and> snd s \<le> d - 1)
     \<and> sorted_wrt (\<lambda>a b. snd a \<le> fst b) (fst (generate_strategic_segments d g))"
proof -
  obtain segs g' where loop: "segments_loop d (target_clips d) (d / real_of_int (target_clips d)) [0 ..< nat (target_clips d)] g [] = (segs, g')"
    by (cases "segments_loop d (target_clips d) (d / real_of_int (target_clips d)) [0 ..< nat (target_clips d)] g []")
  have "\<forall>s\<in>set (fst (segments_loop d (target_clips d) (d / real_of_int (target_clips d)) [0 ..< nat (target_clips d)] g [])). 20 \<le> snd s - fst s \<and> 0 \<le> fst s \<and> snd s \<le> d - 1"
    by (rule segments_loop_ok) simp
  then have "\<forall>s\<in>set (sort_key fst segs). 20 \<le> snd s - fst s \<and> 0 \<le> fst s \<and> snd s \<le> d - 1"
    using loop by simp
  from remove_overlaps_inv [OF this] loop show ?thesis
    by (simp add: generate_strategic_segments_def Let_def)
qed

text \<open>
  Claim C2. For every duration above zero and every run of the random source, the plan is
  sorted ascending by start time, every segment has \<open>end - start \<ge> 20\<close> and
  \<open>0 \<le> start < end \<le> duration\<close> (indeed \<open>end \<le> duration - 1\<close>, the clamp), and every
  segment ends no later than the next one starts.
\<close>

theorem plan_ordered_disjoint:
  assumes "0 < d"
  shows "let segs = fst (generate_strategic_segments d g) in
     sorted (map fst segs)
     \<and> (\<forall>s\<in>set segs. snd s - fst s \<ge> 20 \<and> 0 \<le> fst s \<and> fst s < snd s \<and> snd s \<le> d \<and> snd s \<le> d - 1)
     \<and> (\<forall>i. Suc i < length segs \<longrightarrow> snd (segs ! i) \<le> fst (segs ! Suc i))"
proof -
  let ?segs = "fst (generate_strategic_segments d g)"
  have ok: "\<forall>s\<in>set ?segs. 20 \<le> snd s - fst s \<and> 0 \<le> fst s \<and> snd s \<le> d - 1"
    and chain: "sorted_wrt (\<lambda>a b. snd a \<le> fst b) ?segs"
    using plan_inv [of d g] by auto
  have "sorted_wrt (\<lambda>a b. fst a \<le> fst b) ?segs"
    using chain ok by (rule_tac sorted_wrt_mono_rel [where P = "\<lambda>a b. snd a \<le> fst b"]) fastforce+
  then have 1: "sorted (map fst ?segs)" by (simp add: sorted_map)
  have 2: "\<forall>s\<in>set ?segs. snd s - fst s \<ge> 20 \<and> 0 \<le> fst s \<and> fst s < snd s \<and> snd s \<le> d \<and> snd s \<le> d - 1"
    using ok by fastforce
  have 3: "\<forall>i. Suc i < length ?segs \<longrightarrow> snd (?segs ! i) \<le> fst (?segs ! Suc i)"
    using chain by (auto dest: sorted_wrt_nth_less [where i = i and j = "Suc i" for i])
  from 1 2 3 show ?thesis by (simp add: Let_def)
qed

theorem plan_ordered_disjoint_witness:
  "0 < (600::real)
   \<and> fst (generate_strategic_segments 600 (\<lambda>n. 99 / 100)) =
       [(98 / 5, 398 / 5), (598 / 5, 948 / 5), (1098 / 5, 1548 / 5), (1598 / 5, 2048 / 5),
        (2098 / 5, 2548 / 5), (2598 / 5, 599)]
   \<and> sorted (map fst (fst (generate_strategic_segments 600 (\<lambda>n. 99 / 100))))
   \<and> snd (fst (generate_strategic_segments 600 (\<lambda>n. 99 / 100)) ! 0)
       \<le> fst (fst (generate_strategic_segments 600 (\<lambda>n. 99 / 100)) ! Suc 0)"
proof -
  have pos: "0 < (600::real)" by simp
  have run: "fst (generate_strategic_segments 600 (\<lambda>n. 99 / 100)) =
       [(98 / 5, 398 / 5), (598 / 5, 948 / 5), (1098 / 5, 1548 / 5), (1598 / 5, 2048 / 5),
        (2098 / 5, 2548 / 5), (2598 / 5, 599)]"
    by code_simp
  have len: "Suc 0 < length (fst (generate_strategic_segments 600 (\<lambda>n. 99 / 100)))"
    by (simp add: run)
  from plan_ordered_disjoint [OF pos, of "\<lambda>n. 99 / 100"] len pos run show ?thesis
    unfolding Let_def by blast
qed

section \<open>Properties of the heuristic scorer\<close>

subsection \<open>What the heuristic path returns\<close>

lemma randint_pair: "randint a b g = (k, g') \<Longrightarrow> a \<le> b \<Longrightarrow> a \<le> k \<and> k \<le> b"
  using randint_range [of a b g] by simp

lemma fallback_score_range:
  "60 \<le> fst (fallback_score p d g) \<and> fst (fallback_score p d g) \<le> 115"
proof -
  obtain s0 g1 where base: "randint 60 80 g = (s0, g1)" by (cases "randint 60 80 g")
  have s0: "60 \<le> s0 \<and> s0 \<le> 80" using randint_pair [OF base] by simp
  obtain s1 g2 where pos: "(if p < 0.2 then (case randint 10 20 g1 of (b, g') \<Rightarrow> (s0 + b, g'))
            else if p < 0.4 then (case randint 5 15 g1 of (b, g') \<Rightarrow> (s0 + b, g'))
            else if p > 0.8 then (case randint 3 12 g1 of (b, g') \<Rightarrow> (s0 + b, g'))
            else (s0, g1)) = (s1, g2)"
    by (rule prod.exhaust)
  have s1: "s0 \<le> s1 \<and> s1 \<le> s0 + 20"
    using pos by (auto split: if_splits prod.splits dest!: randint_pair)
  obtain s2 g3 where dur: "(if 30 \<le> d \<and> d \<le> 60 then (case randint 5 15 g2 of (b, g') \<Rightarrow> (s1 + b, g'))
       else if 20 \<le> d \<and> d < 30 then (case randint 2 8 g2 of (b, g') \<Rightarrow> (s1 + b, g'))
       else if 60 < d \<and> d \<le> 90 then (case randint 0 5 g2 of (b, g') \<Rightarrow> (s1 + b, g'))
       else (s1, g2)) = (s2, g3)"
    by (rule prod.exhaust)
  have s2: "s1 \<le> s2 \<and> s2 \<le> s1 + 15"
    using dur by (auto split: if_splits prod.splits dest!: randint_pair)
  have "fallback_score p d g = (s2, g3)"
    unfolding fallback_score_def base prod.case pos dur ..
  with s0 s1 s2 show ?thesis by simp
qed

lemma cap_score_range: "60 \<le> s \<Longrightarrow> cap_score s = min s 99 \<and> 60 \<le> cap_score s \<and> cap_score s \<le> 99"
  by (simp add: cap_score_def)

lemma choice_nonempty:
  "seq \<noteq> [] \<Longrightarrow>
   choice seq g = Inr (seq ! fst (randbelow (length seq) g), snd (randbelow (length seq) g))
     \<and> fst (randbelow (length seq) g) < length seq"
  using randbelow_less [of "length seq" g]
  by (cases "randbelow (length seq) g") (simp add: choice_def)

lemma length_title_templates: "length (title_templates n d) = 10"
  by (simp add: title_templates_def Let_def)

lemma length_content_types: "length content_types = 5"
  by (simp add: content_types_def)

lemma fallback_returns:
  "\<exists>c g' i j. enhanced_fallback_analysis ctx g = Inr (c, g')
     \<and> start_time c = ctx_start_time ctx \<and> end_time c = ctx_end_time ctx
     \<and> duration c = ctx_duration ctx
     \<and> virality_score c =
         JInt (cap_score (fst (fallback_score (ctx_position_in_video ctx) (ctx_duration ctx) g)))
     \<and> i < 10 \<and> title c = JStr (title_templates (ctx_clip_number ctx) (ctx_duration ctx) ! i)
     \<and> j < 5 \<and> content_type c = JStr (content_types ! j)
     \<and> engagement_factors c =
         JArr [JStr ''strategic_positioning'', JStr ''optimal_duration'', JStr ''enhanced_analysis'']"
proof -
  obtain sc g1 where sc: "fallback_score (ctx_position_in_video ctx) (ctx_duration ctx) g = (sc, g1)"
    by (rule prod.exhaust)
  let ?tt = "title_templates (ctx_clip_number ctx) (ctx_duration ctx)"
  have "?tt \<noteq> []" using length_title_templates [of "ctx_clip_number ctx" "ctx_duration ctx"] by auto
  from choice_nonempty [OF this, of g1] obtain g2 i
    where ti: "choice ?tt g1 = Inr (?tt ! i, g2)" and i: "i < 10"
    by (simp add: length_title_templates)
  have "content_types \<noteq> []" by (simp add: content_types_def)
  from choice_nonempty [OF this, of g2] obtain g3 j
    where ct: "choice content_types g2 = Inr (content_types ! j, g3)" and j: "j < 5"
    by (simp add: length_content_types)
  obtain hk g4 where hk: "randint 50 90 g3 = (hk, g4)" by (rule prod.exhaust)
  obtain cm g5 where cm: "randint 60 95 g4 = (cm, g5)" by (rule prod.exhaust)
  show ?thesis
    using i j by (simp add: enhanced_fallback_analysis_def Let_def sc ti ct hk cm) blast
qed

text \<open>
  Claim C10. For every context and every run of the random source the heuristic path
  returns a descriptor whose virality score is an integer between 60 and 99: the score
  before the cap is at least 60 (a base of at least 60 plus bonuses that are never
  negative), so the cap only ever acts from above and the lower bound 30 never binds.
\<close>

theorem heuristic_score_range:
  "\<exists>c g' v. enhanced_fallback_analysis ctx g = Inr (c, g')
     \<and> virality_score c = JInt v \<and> 60 \<le> v \<and> v \<le> 99
     \<and> v = min (fst (fallback_score (ctx_position_in_video ctx) (ctx_duration ctx) g)) 99
     \<and> 60 \<le> fst (fallback_score (ctx_position_in_video ctx) (ctx_duration ctx) g)"
proof -
  let ?raw = "fst (fallback_score (ctx_position_in_video ctx) (ctx_duration ctx) g)"
  have raw: "60 \<le> ?raw" using fallback_score_range by blast
  from fallback_returns [of ctx g] obtain c g'
    where "enhanced_fallback_analysis ctx g = Inr (c, g')" "virality_score c = JInt (cap_score ?raw)"
    by blast
  with raw cap_score_range [OF raw] show ?thesis by auto
qed

subsection \<open>A generator that repeats one raw draw\<close>

lemma random_unit_const: "random_unit (\<lambda>n. r) = (frac r, \<lambda>n. r)"
  by (simp add: random_unit_def)

lemma randbelow_const: "snd (randbelow n (\<lambda>n. r)) = (\<lambda>n. r)"
  by (simp add: randbelow_def random_unit_const)

lemma randint_const: "randint a b (\<lambda>n. r) = (k, g') \<Longrightarrow> g' = (\<lambda>n. r)"
  using randbelow_const [of "nat (b - a + 1)" r]
  by (cases "randbelow (nat (b - a + 1)) (\<lambda>n. r)") (auto simp: randint_def)

lemma fallback_score_const: "snd (fallback_score p d (\<lambda>n. r)) = (\<lambda>n. r)"
proof -
  obtain s0 g1 where base: "randint 60 80 (\<lambda>n. r) = (s0, g1)" by (rule prod.exhaust)
  have g1: "g1 = (\<lambda>n. r)" using randint_const [OF base] .
  obtain s1 g2 where pos: "(if p < 0.2 then (case randint 10 20 g1 of (b, g') \<Rightarrow> (s0 + b, g'))
            else if p < 0.4 then (case randint 5 15 g1 of (b, g') \<Rightarrow> (s0 + b, g'))
            else if p > 0.8 then (case randint 3 12 g1 of (b, g') \<Rightarrow> (s0 + b, g'))
            else (s0, g1)) = (s1, g2)"
    by (rule prod.exhaust)
  have g2: "g2 = (\<lambda>n. r)"
    using pos unfolding g1 by (auto split: if_splits prod.splits dest: randint_const)
  obtain s2 g3 where dur: "(if 30 \<le> d \<and> d \<le> 60 then (case randint 5 15 g2 of (b, g') \<Rightarrow> (s1 + b, g'))
       else if 20 \<le> d \<and> d < 30 then (case randint 2 8 g2 of (b, g') \<Rightarrow> (s1 + b, g'))
       else if 60 < d \<and> d \<le> 90 then (case randint 0 5 g2 of (b, g') \<Rightarrow> (s1 + b, g'))
       else (s1, g2)) = (s2, g3)"
    by (rule prod.exhaust)
  have g3: "g3 = (\<lambda>n. r)"
    using dur unfolding g2 by (auto split: if_splits prod.splits dest: randint_const)
  have "fallback_score p d (\<lambda>n. r) = (s2, g3)"
    unfolding fallback_score_def base prod.case pos dur ..
  with g3 show ?thesis by simp
qed

lemma randbelow_const_index: "k < n \<Longrightarrow> fst (randbelow n (\<lambda>i. real k / real n)) = k"
proof -
  assume k: "k < n"
  then have "real k / real n < 1" "0 \<le> real k / real n" by (simp_all add: field_simps)
  then have "frac (real k / real n) = real k / real n"
    by (simp add: frac_eq)
  then show ?thesis using k by (simp add: randbelow_def random_unit_const)
qed

lemma fallback_const_run:
  assumes g: "g = (\<lambda>n. r)"
  shows "\<exists>c. enhanced_fallback_analysis ctx g = Inr (c, g)
     \<and> title c = JStr (title_templates (ctx_clip_number ctx) (ctx_duration ctx)
                        ! fst (randbelow 10 g))
     \<and> content_type c = JStr (content_types ! fst (randbelow 5 g))"
proof -
  let ?tt = "title_templates (ctx_clip_number ctx) (ctx_duration ctx)"
  obtain sc g1 where sc: "fallback_score (ctx_position_in_video ctx) (ctx_duration ctx) g = (sc, g1)"
    by (rule prod.exhaust)
  have g1: "g1 = g" using fallback_score_const [of "ctx_position_in_video ctx" "ctx_duration ctx" r] sc g
    by simp
  have same: "snd (randbelow n g) = g" for n using randbelow_const [of n r] g by simp
  have "?tt \<noteq> []" using length_title_templates [of "ctx_clip_number ctx" "ctx_duration ctx"] by auto
  from choice_nonempty [OF this, of g]
  have ti: "choice ?tt g = Inr (?tt ! fst (randbelow 10 g), g)"
    by (simp add: length_title_templates same)
  have "content_types \<noteq> []" by (simp add: content_types_def)
  from choice_nonempty [OF this, of g]
  have ct: "choice content_types g = Inr (content_types ! fst (randbelow 5 g), g)"
    by (simp add: length_content_types same)
  obtain hk g4 where hk: "randint 50 90 g = (hk, g4)" by (rule prod.exhaust)
  have g4: "g4 = g" using randint_const [of 50 90 r hk g4] hk g by simp
  obtain cm g5 where cm: "randint 60 95 g = (cm, g5)" by (rule prod.exhaust)
  have g5: "g5 = g" using randint_const [of 60 95 r cm g5] cm g by simp
  show ?thesis
    using hk cm by (simp add: enhanced_fallback_analysis_def Let_def sc g1 ti ct g4 g5)
qed





text \<open>
  Claim C9, as amended. On the heuristic path every descriptor's title is one of the ten
  templates of the pool, filled in for its clip; the template is picked by a draw of its
  own, with no record of the templates used before, so that every template can be picked
  for every clip (the draw whose raw values are all \<open>k / 10\<close> picks template \<open>k\<close>).
\<close>

theorem heuristic_title_pool:
  "(\<exists>c g' k. enhanced_fallback_analysis ctx g = Inr (c, g') \<and> k < 10
      \<and> title c = JStr (title_templates (ctx_clip_number ctx) (ctx_duration ctx) ! k))
   \<and> (\<forall>k<10. \<exists>c g'. enhanced_fallback_analysis ctx (\<lambda>n. real k / 10) = Inr (c, g')
      \<and> title c = JStr (title_templates (ctx_clip_number ctx) (ctx_duration ctx) ! k))"
proof
  from fallback_returns [of ctx g]
  show "\<exists>c g' k. enhanced_fallback_analysis ctx g = Inr (c, g') \<and> k < 10
      \<and> title c = JStr (title_templates (ctx_clip_number ctx) (ctx_duration ctx) ! k)"
    by blast
next
  show "\<forall>k<10. \<exists>c g'. enhanced_fallback_analysis ctx (\<lambda>n. real k / 10) = Inr (c, g')
      \<and> title c = JStr (title_templates (ctx_clip_number ctx) (ctx_duration ctx) ! k)"
  proof (intro allI impI)
    fix k :: nat assume k: "k < 10"
    have idx: "fst (randbelow 10 (\<lambda>n. real k / 10)) = k"
      using randbelow_const_index [of k 10] k by simp
    from fallback_const_run [of "\<lambda>n. real k / 10" "real k / 10" ctx] idx
    show "\<exists>c g'. enhanced_fallback_analysis ctx (\<lambda>n. real k / 10) = Inr (c, g')
      \<and> title c = JStr (title_templates (ctx_clip_number ctx) (ctx_duration ctx) ! k)"
      by auto
  qed
qed

theorem heuristic_title_pool_witness:
  "map_sum id (title \<circ> fst)
     (enhanced_fallback_analysis
        \<lparr>ctx_start_time = 0, ctx_end_time = 45, ctx_duration = 45, ctx_clip_number = 1,
         ctx_position_in_video = 0, ctx_total_duration = 600\<rparr> (\<lambda>n. 1 / 10))
   = Inr (JStr ([CHR 0xF0, CHR 0x9F, CHR 0x8E, CHR 0xAF] @ '' Must-Watch: 45-Second Viral Clip!''))"
proof -
  have fmt: "format_f0 45 = ''45''" by code_simp
  have "(1::nat) < 10" by simp
  with heuristic_title_pool
    [of "\<lparr>ctx_start_time = 0, ctx_end_time = 45, ctx_duration = 45, ctx_clip_number = 1,
         ctx_position_in_video = 0, ctx_total_duration = 600\<rparr>" "\<lambda>n. 1 / 10"]
  obtain c g' where "enhanced_fallback_analysis
        \<lparr>ctx_start_time = 0, ctx_end_time = 45, ctx_duration = 45, ctx_clip_number = 1,
         ctx_position_in_video = 0, ctx_total_duration = 600\<rparr> (\<lambda>n. real (1::nat) / 10) = Inr (c, g')"
    "title c = JStr (title_templates 1 45 ! 1)"
    by fastforce
  then show ?thesis by (simp add: title_templates_def Let_def fmt)
qed

section \<open>Properties of the scorer\<close>

subsection \<open>Falling back on an external failure\<close>






subsection \<open>The external path copies the score unchecked\<close>

text \<open>
  Claim C1, where the code departs from it. The backend answers with status 200 and the
  content \<^verbatim>\<open>{"virality_score": 150}\<close>; \<open>json.loads\<close> is given on that text, where it
  yields the object. The descriptor that scoring returns carries the score 150: the
  external path applies no cap, as the heuristic path does in line 306.
\<close>

theorem external_score_unclamped:
  \<open>map_sum id (virality_score \<circ> fst)
     (analyze_segment \<lparr>openrouter_api_key = Some ''key''\<rparr>
        (\<lambda>s. if s = ''{"virality_score": 150}''
              then Some (JObj [(''virality_score'', JInt 150)]) else None)
        (\<lambda>c. Inr \<lparr>status_code = 200, json_body = Some (JObj [(''choices'',
            JArr [JObj [(''message'',
              JObj [(''content'', JStr ''{"virality_score": 150}'')])]])])\<rparr>)
        0 45 600 1 (\<lambda>n. 0)) = Inr (JInt 150)\<close>
  by code_simp

section \<open>Properties of the pipeline\<close>

subsection \<open>No exception leaves the pipeline\<close>

lemma segments_loop_short:
  "d < 21 \<Longrightarrow> fst (segments_loop d t sz idxs g acc) = acc"
proof (induction idxs arbitrary: g acc)
  case Nil
  then show ?case by simp
next
  case (Cons i idxs)
  show ?case
    apply (simp only: segments_loop.simps Let_def split: prod.splits)
    apply (intro allI impI)
    apply (subst if_not_P)
    using Cons.prems apply (simp add: min_def max_def)
    apply (rule Cons.IH [OF Cons.prems])
    done
qed

lemma plan_short:
  assumes "d < 21"
  shows "fst (generate_strategic_segments d g) = []"
proof -
  obtain segs g' where loop: "segments_loop d (target_clips d) (d / real_of_int (target_clips d))
      [0 ..< nat (target_clips d)] g [] = (segs, g')"
    by (rule prod.exhaust)
  from segments_loop_short [OF assms, of "target_clips d" "d / real_of_int (target_clips d)"
      "[0 ..< nat (target_clips d)]" g "[]"] loop
  have "segs = []" by simp
  with loop show ?thesis
    by (simp add: generate_strategic_segments_def Let_def remove_overlaps_def)
qed

text \<open>
  Claim C6. \<open>generate_intelligent_clips\<close> returns a list whatever happens: when
  anything raises while planning or scoring, the result is the empty list; and for a
  duration of zero or below the planner yields no segment, nothing raises, and the result
  is the empty list.
\<close>

theorem generate_never_raises:
  "(clips_body cfg json_loads post probe g = Inl err
      \<longrightarrow> generate_intelligent_clips cfg json_loads post probe g = [])
   \<and> (d \<le> 0 \<longrightarrow> (\<exists>g'. clips_body cfg json_loads post (Some d) g = Inr ([], g'))
          \<and> generate_intelligent_clips cfg json_loads post (Some d) g = [])"
proof (intro conjI impI)
  assume "clips_body cfg json_loads post probe g = Inl err"
  then show "generate_intelligent_clips cfg json_loads post probe g = []"
    by (simp add: generate_intelligent_clips_def)
next
  assume d: "d \<le> 0"
  then have "fst (generate_strategic_segments d g) = []" by (intro plan_short) simp
  then obtain g' where "generate_strategic_segments d g = ([], g')"
    by (cases "generate_strategic_segments d g") simp
  then have body: "clips_body cfg json_loads post (Some d) g = Inr ([], g')"
    by (simp add: clips_body_def get_video_info_def)
  then show "\<exists>g'. clips_body cfg json_loads post (Some d) g = Inr ([], g')" by blast
  from body show "generate_intelligent_clips cfg json_loads post (Some d) g = []"
    by (simp add: generate_intelligent_clips_def)
qed

theorem generate_never_raises_witness:
  \<open>map_sum id fst (clips_body \<lparr>openrouter_api_key = Some ''key''\<rparr>
        (\<lambda>s. if s = ''{"title": 5}'' then Some (JObj [(''title'', JInt 5)]) else None)
        (\<lambda>c. Inr \<lparr>status_code = 200, json_body = Some (JObj [(''choices'',
            JArr [JObj [(''message'', JObj [(''content'', JStr ''{"title": 5}'')])]])])\<rparr>)
        None (\<lambda>n. 0)) = Inl TypeError
   \<and> generate_intelligent_clips \<lparr>openrouter_api_key = Some ''key''\<rparr>
        (\<lambda>s. if s = ''{"title": 5}'' then Some (JObj [(''title'', JInt 5)]) else None)
        (\<lambda>c. Inr \<lparr>status_code = 200, json_body = Some (JObj [(''choices'',
            JArr [JObj [(''message'', JObj [(''content'', JStr ''{"title": 5}'')])]])])\<rparr>)
        None (\<lambda>n. 0) = []
   \<and> (0::real) \<le> 0
   \<and> generate_intelligent_clips \<lparr>openrouter_api_key = None\<rparr> (\<lambda>s. None)
        (\<lambda>c. Inl RequestException) (Some 0) (\<lambda>n. 0) = []
   \<and> (- 5::real) \<le> 0
   \<and> generate_intelligent_clips \<lparr>openrouter_api_key = None\<rparr> (\<lambda>s. None)
        (\<lambda>c. Inl RequestException) (Some (- 5)) (\<lambda>n. 0) = []\<close>
proof -
  let ?cfg = \<open>\<lparr>openrouter_api_key = Some ''key''\<rparr>\<close>
  let ?jl = \<open>\<lambda>s. if s = ''{"title": 5}'' then Some (JObj [(''title'', JInt 5)]) else None\<close>
  let ?post = \<open>\<lambda>c :: segment_context. Inr \<lparr>status_code = 200, json_body = Some (JObj [(''choices'',
            JArr [JObj [(''message'', JObj [(''content'', JStr ''{"title": 5}'')])]])])\<rparr> :: error + response\<close>
  have run: \<open>map_sum id fst (clips_body ?cfg ?jl ?post None (\<lambda>n. 0)) = Inl TypeError\<close>
    by code_simp
  then have body: \<open>clips_body ?cfg ?jl ?post None (\<lambda>n. 0) = Inl TypeError\<close>
    by (cases \<open>clips_body ?cfg ?jl ?post None (\<lambda>n. 0)\<close>) simp_all
  have a: \<open>generate_intelligent_clips ?cfg ?jl ?post None (\<lambda>n. 0) = []\<close>
    using generate_never_raises [of ?cfg ?jl ?post None \<open>\<lambda>n. 0\<close> TypeError 0] body by blast
  have b: \<open>generate_intelligent_clips \<lparr>openrouter_api_key = None\<rparr> (\<lambda>s. None)
        (\<lambda>c. Inl RequestException) (Some 0) (\<lambda>n. 0) = []\<close>
    using generate_never_raises [of \<open>\<lparr>openrouter_api_key = None\<rparr>\<close> \<open>\<lambda>s. None\<close>
        \<open>\<lambda>c. Inl RequestException\<close> None \<open>\<lambda>n. 0\<close> TypeError 0] by simp
  have c: \<open>generate_intelligent_clips \<lparr>openrouter_api_key = None\<rparr> (\<lambda>s. None)
        (\<lambda>c. Inl RequestException) (Some (- 5)) (\<lambda>n. 0) = []\<close>
    using generate_never_raises [of \<open>\<lparr>openrouter_api_key = None\<rparr>\<close> \<open>\<lambda>s. None\<close>
        \<open>\<lambda>c. Inl RequestException\<close> None \<open>\<lambda>n. 0\<close> TypeError \<open>- 5\<close>] by simp
  from run a b c show ?thesis by simp
qed

subsection \<open>The plan of a ten-minute video\<close>






subsection \<open>A batch scored by the heuristic path\<close>

lemma analyze_segment_heuristic:
  "\<not> openrouter_available cfg \<Longrightarrow> total_duration \<noteq> 0 \<Longrightarrow>
   analyze_segment cfg json_loads post s e total_duration n g =
     enhanced_fallback_analysis
       \<lparr>ctx_start_time = s, ctx_end_time = e, ctx_duration = e - s, ctx_clip_number = n,
        ctx_position_in_video = s / total_duration, ctx_total_duration = total_duration\<rparr> g"
  by (simp add: analyze_segment_def)



subsection \<open>Ten minutes, no external backend\<close>







subsection \<open>A batch whose titles repeat\<close>

lemma uniform_const: "uniform a b (\<lambda>n. r) = (x, g') \<Longrightarrow> g' = (\<lambda>n. r)"
  by (auto simp: uniform_def random_unit_const)

lemma segments_loop_const: "snd (segments_loop d t sz idxs (\<lambda>n. r) acc) = (\<lambda>n. r)"
proof (induction idxs arbitrary: acc)
  case Nil
  then show ?case by simp
next
  case (Cons i idxs)
  obtain off g1 where u: "uniform (- sz * 0.2) (sz * 0.2) (\<lambda>n. r) = (off, g1)"
    by (rule prod.exhaust)
  have g1: "g1 = (\<lambda>n. r)" using uniform_const [OF u] .
  obtain cd g2 where rd: "(if i = 0 then randint 30 60 g1
            else if int i < t div 3 then randint 25 70 g1
            else randint 20 90 g1) = (cd, g2)"
    by (rule prod.exhaust)
  have g2: "g2 = (\<lambda>n. r)"
    using rd unfolding g1 by (auto split: if_splits dest: randint_const)
  show ?case
    unfolding segments_loop.simps Let_def u prod.case rd
    unfolding g2 by (rule Cons.IH)
qed

lemma plan_const: "snd (generate_strategic_segments d (\<lambda>n. r)) = (\<lambda>n. r)"
  using segments_loop_const [of d "target_clips d" "d / real_of_int (target_clips d)"
      "[0 ..< nat (target_clips d)]" r "[]"]
  by (cases "segments_loop d (target_clips d) (d / real_of_int (target_clips d))
      [0 ..< nat (target_clips d)] (\<lambda>n. r) []")
     (simp add: generate_strategic_segments_def Let_def)

lemma clips_loop_const:
  assumes off: "\<not> openrouter_available cfg" and nz: "total_duration \<noteq> 0" and g: "g = (\<lambda>n. r)"
  shows "\<exists>new. clips_loop cfg json_loads post total_duration i segs g acc = Inr (acc @ new, g)
     \<and> map title new =
        map (\<lambda>(n, seg). JStr (title_templates n (snd seg - fst seg) ! fst (randbelow 10 g)))
          (zip [i + 1 .. i + int (length segs)] segs)"
proof (induction segs arbitrary: i acc)
  case Nil
  then show ?case by simp
next
  case (Cons seg segs)
  obtain s e where seg: "seg = (s, e)" by (cases seg)
  let ?ctx = "\<lparr>ctx_start_time = s, ctx_end_time = e, ctx_duration = e - s, ctx_clip_number = i + 1,
        ctx_position_in_video = s / total_duration, ctx_total_duration = total_duration\<rparr>"
  from fallback_const_run [OF g, of ?ctx] obtain c
    where run: "enhanced_fallback_analysis ?ctx g = Inr (c, g)"
      and c: "title c = JStr (title_templates (i + 1) (e - s) ! fst (randbelow 10 g))"
    by auto
  from Cons.IH [of "i + 1" "acc @ [c]"] obtain new
    where rest: "clips_loop cfg json_loads post total_duration (i + 1) segs g (acc @ [c])
        = Inr ((acc @ [c]) @ new, g)"
      and titles: "map title new =
        map (\<lambda>(n, seg). JStr (title_templates n (snd seg - fst seg) ! fst (randbelow 10 g)))
          (zip [i + 1 + 1 .. i + 1 + int (length segs)] segs)"
    by blast
  have len: "i + int (length (seg # segs)) = i + 1 + int (length segs)" by simp
  have range: "[i + 1 .. i + int (length (seg # segs))]
      = (i + 1) # [i + 1 + 1 .. i + 1 + int (length segs)]"
    unfolding len by (rule upto_rec1) simp
  have "clips_loop cfg json_loads post total_duration i (seg # segs) g acc = Inr (acc @ (c # new), g)"
    using off nz run c rest by (simp add: seg analyze_segment_heuristic)
  moreover have "map title (c # new) =
        map (\<lambda>(n, seg). JStr (title_templates n (snd seg - fst seg) ! fst (randbelow 10 g)))
          (zip [i + 1 .. i + int (length (seg # segs))] (seg # segs))"
    unfolding range using c titles by (simp add: seg)
  ultimately show ?case by blast
qed

text \<open>
  Claim C9 as stated fails on the batch below (600 seconds, no external backend, every
  raw draw one half): all six descriptors get template 5 of the ten, and the third and the
  fourth get the very same title, although nine templates are unused.
\<close>

theorem repeated_template_counterexample:
  "map title (generate_intelligent_clips \<lparr>openrouter_api_key = None\<rparr> (\<lambda>s. None)
      (\<lambda>c. Inl RequestException) (Some 600) (\<lambda>n. 1 / 2))
   = [JStr (title_templates 1 45 ! 5), JStr (title_templates 2 48 ! 5),
      JStr (title_templates 3 55 ! 5), JStr (title_templates 4 55 ! 5),
      JStr (title_templates 5 55 ! 5), JStr (title_templates 6 55 ! 5)]
   \<and> title_templates 3 55 ! 5 = title_templates 4 55 ! 5
   \<and> length (title_templates 4 55) = 10"
proof -
  let ?g = "\<lambda>n::nat. 1 / 2 :: real"
  have off: "\<not> openrouter_available \<lparr>openrouter_api_key = None\<rparr>"
    by (simp add: openrouter_available_def)
  have plan: "fst (generate_strategic_segments 600 ?g)
      = [(0, 45), (100, 148), (200, 255), (300, 355), (400, 455), (500, 555)]"
    by code_simp
  have gen: "generate_strategic_segments 600 ?g
      = ([(0, 45), (100, 148), (200, 255), (300, 355), (400, 455), (500, 555)], ?g)"
    using plan plan_const [of 600 "1 / 2"] by (simp add: prod_eq_iff)
  have idx: "fst (randbelow 10 ?g) = 5" by code_simp
  have upto: "[0 + 1 .. 0 + int (length [(0::real, 45::real), (100, 148), (200, 255), (300, 355),
      (400, 455), (500, 555)])] = [1, 2, 3, 4, 5, 6]"
    by code_simp
  from clips_loop_const [OF off, of 600 ?g "1 / 2" "\<lambda>s. None" "\<lambda>c. Inl RequestException" 0
      "[(0, 45), (100, 148), (200, 255), (300, 355), (400, 455), (500, 555)]" "[]"]
  obtain new where loop: "clips_loop \<lparr>openrouter_api_key = None\<rparr> (\<lambda>s. None)
        (\<lambda>c. Inl RequestException) 600 0
        [(0, 45), (100, 148), (200, 255), (300, 355), (400, 455), (500, 555)] ?g [] = Inr ([] @ new, ?g)"
    and titles: "map title new =
        map (\<lambda>(n, seg). JStr (title_templates n (snd seg - fst seg) ! fst (randbelow 10 ?g)))
          (zip [0 + 1 .. 0 + int (length [(0::real, 45::real), (100, 148), (200, 255), (300, 355),
      (400, 455), (500, 555)])] [(0, 45), (100, 148), (200, 255), (300, 355), (400, 455), (500, 555)])"
    by auto
  have "generate_intelligent_clips \<lparr>openrouter_api_key = None\<rparr> (\<lambda>s. None)
      (\<lambda>c. Inl RequestException) (Some 600) ?g = new"
    by (simp add: generate_intelligent_clips_def clips_body_def get_video_info_def gen loop
        del: clips_loop.simps)
  moreover have "map title new = [JStr (title_templates 1 45 ! 5), JStr (title_templates 2 48 ! 5),
      JStr (title_templates 3 55 ! 5), JStr (title_templates 4 55 ! 5),
      JStr (title_templates 5 55 ! 5), JStr (title_templates 6 55 ! 5)]"
    unfolding titles upto idx by simp
  moreover have "title_templates 3 55 ! 5 = title_templates 4 55 ! 5"
    by (simp add: title_templates_def Let_def)
  ultimately show ?thesis by (simp add: length_title_templates)
qed

end
